theory Spec2Isabelle
  imports Complex_Main
begin

section \<open>JavaScript values and the file record\<close>

text \<open>
  The values that \<^verbatim>\<open>JSON.parse\<close> returns and that the components store in the loosely
  typed fields of a file. \<open>Undefined\<close> is what reading a missing property gives; numbers
  are taken as exact rationals (the rounding of IEEE doubles is not modelled); an object
  is its property list, read with \<open>map_of\<close>.
\<close>

datatype jsval =
    Undefined
  | JNull
  | JBool bool
  | JNum rat
  | JStr string
  | JArr "jsval list"
  | JObj "(string \<times> jsval) list"

text \<open>Truthiness, as \<^verbatim>\<open>!x\<close>, \<^verbatim>\<open>x && y\<close> and \<^verbatim>\<open>x || y\<close> test it.\<close>

fun truthy :: "jsval \<Rightarrow> bool" where
  "truthy Undefined = False"
| "truthy JNull = False"
| "truthy (JBool b) = b"
| "truthy (JNum r) = (r \<noteq> 0)"
| "truthy (JStr s) = (s \<noteq> [])"
| "truthy (JArr xs) = True"
| "truthy (JObj kvs) = True"

text \<open>\<^verbatim>\<open>x == null\<close>: the test behind \<^verbatim>\<open>??\<close>.\<close>

fun nullish :: "jsval \<Rightarrow> bool" where
  "nullish Undefined = True"
| "nullish JNull = True"
| "nullish v = False"

text \<open>\<^verbatim>\<open>a ?? b\<close>\<close>

definition coalesce :: "jsval \<Rightarrow> jsval \<Rightarrow> jsval" where
  "coalesce a b = (if nullish a then b else a)"

text \<open>
  \<^verbatim>\<open>v.k\<close> for a value \<open>v\<close> that is neither null nor undefined and for the property names
  the components read (\<^verbatim>\<open>fileId\<close>, \<^verbatim>\<open>file_id\<close>, \<^verbatim>\<open>status\<close>, \<^verbatim>\<open>error\<close>, \<^verbatim>\<open>progress\<close>,
  \<^verbatim>\<open>analysis\<close>, \<^verbatim>\<open>json\<close>, \<^verbatim>\<open>message\<close>, ...): an object gives the property or undefined, and a
  primitive or an array has none of these names. Reading a property of null throws and
  is a branch of its own wherever it can happen.
\<close>

fun get :: "jsval \<Rightarrow> string \<Rightarrow> jsval" where
  "get (JObj kvs) k = (case map_of kvs k of None \<Rightarrow> Undefined | Some v \<Rightarrow> v)"
| "get v k = Undefined"

text \<open>\<^verbatim>\<open>typeof v === "object" && k in v\<close> for a truthy \<open>v\<close>.\<close>

fun has_key :: "jsval \<Rightarrow> string \<Rightarrow> bool" where
  "has_key (JObj kvs) k = (map_of kvs k \<noteq> None)"
| "has_key v k = False"

fun is_number :: "jsval \<Rightarrow> bool" where
  "is_number (JNum r) = True"
| "is_number v = False"

text \<open>
  \<^verbatim>\<open>FileData\<close> (app/page): the fields the stream handlers read or write. The remaining
  fields (\<^verbatim>\<open>path\<close>, \<^verbatim>\<open>size\<close>, \<^verbatim>\<open>type\<close>, \<^verbatim>\<open>file\<close>, \<^verbatim>\<open>uploaded\<close>, \<^verbatim>\<open>sourceUrl\<close>,
  \<^verbatim>\<open>fileData\<close>) are copied by every spread \<^verbatim>\<open>{...f, ...}\<close> and read by none of the code
  below. The field \<^verbatim>\<open>id\<close> is \<open>id'\<close> here.
\<close>

record FileData =
  id' :: string
  name :: string
  selected :: bool
  processed :: bool
  qualityMetrics :: jsval
  ingestionStatus :: jsval
  ingestionDetails :: jsval
  analysis :: jsval
  error :: jsval

text \<open>
  The state the two components write: \<^verbatim>\<open>files\<close>, the two progress values of the page
  (\<^verbatim>\<open>setProgress\<close> is \<^verbatim>\<open>setProcessingProgress\<close> for FileProcessing and
  \<^verbatim>\<open>setIngestionProgress\<close> for IngestionProcess), and the components' own
  \<^verbatim>\<open>useState\<close> cells. FileProcessing's \<^verbatim>\<open>error\<close> cell is \<open>error_FP\<close>; it holds
  null or whatever \<^verbatim>\<open>setError\<close> was given. The state updates are applied in the order
  of their calls, the order in which React applies the queued updaters.
\<close>

record app_state =
  files :: "FileData list"
  processingProgress :: rat
  ingestionProgress :: jsval
  isProcessing :: bool
  error_FP :: jsval
  processedFileCount :: nat
  isIngesting :: bool
  apiError :: "string option"

text \<open>
  What a \<^verbatim>\<open>catch\<close> receives: an \<^verbatim>\<open>Error\<close> with its message, or any other value
  that was thrown (\<^verbatim>\<open>instanceof Error\<close> is false for it).
\<close>

datatype thrown = ErrorObj string | Thrown jsval

text \<open>
  The HTTP exchange as the handlers see it: either something is thrown before a reader
  exists (\<^verbatim>\<open>fetch\<close> rejects, the status is not ok, the body is missing), or the reader
  yields the decoded chunks in order and then reports \<^verbatim>\<open>done\<close> (\<open>None\<close>) or rejects
  (\<open>Some e\<close>). A chunk is the text \<^verbatim>\<open>decoder.decode(value, {stream: true})\<close> returns,
  as a list of code units below 256.
\<close>

datatype response = Failed thrown | Body "string list" "thrown option"

text \<open>
  \<^verbatim>\<open>JSON.parse\<close> belongs to the platform: the handlers take it as the parameter
  \<open>parse\<close>, \<open>Inl m\<close> being the SyntaxError with message \<open>m\<close>.
\<close>

type_synonym parser = "string \<Rightarrow> string + jsval"

section \<open>IngestionProcess.handleIngestion (part 006)\<close>

text \<open>The line numbers of this section are those of part 006.\<close>

definition nn :: string where
  "nn = [CHR 0x0A, CHR 0x0A]"

text \<open>\<^verbatim>\<open>s.indexOf(pat)\<close>, \<open>None\<close> for -1.\<close>

fun indexOf :: "string \<Rightarrow> string \<Rightarrow> nat option" where
  "indexOf pat [] = (if pat = [] then Some 0 else None)"
| "indexOf pat (c # cs) =
     (if take (length pat) (c # cs) = pat then Some 0
      else map_option Suc (indexOf pat cs))"

definition startsWith :: "string \<Rightarrow> string \<Rightarrow> bool" where
  "startsWith s pat = (take (length pat) s = pat)"

text \<open>
  The message V8 gives to the TypeError of reading the property \<open>k\<close> of null (the text
  depends on the engine).
\<close>

definition null_read_message :: "string \<Rightarrow> string" where
  "null_read_message k =
     ''Cannot read properties of null (reading '' @ [CHR 0x27] @ k @ [CHR 0x27] @ '')''"

text \<open>The updater of \<^verbatim>\<open>setFiles\<close> in the stream loop (lines 133-144).\<close>

definition merge_ingestion :: "jsval \<Rightarrow> FileData list \<Rightarrow> FileData list" where
  "merge_ingestion result prevFiles =
     map (\<lambda>f. if JStr (id' f) = get result ''fileId''
               then f\<lparr>ingestionStatus := get result ''status'',
                      ingestionDetails := get result ''ingestionDetails'',
                      error := (if truthy (get result ''error'')
                                then get result ''error'' else Undefined)\<rparr>
               else f) prevFiles"

text \<open>
  The body of the inner loop for one message (lines 126-146). \<open>Inl e\<close> is an exception
  leaving the loop: nothing here catches it. When \<^verbatim>\<open>result\<close> is null, the call of
  \<^verbatim>\<open>setFiles\<close> only queues its updater and the handler throws at
  \<^verbatim>\<open>result.progress\<close>. (The queued updater reads \<^verbatim>\<open>result.fileId\<close> when React runs
  it: with a file to map over it throws in the render, outside the handler, and changes
  no file; what the page does after that is not followed here.)
\<close>

definition handle_message :: "parser \<Rightarrow> string \<Rightarrow> app_state \<Rightarrow> thrown + app_state" where
  "handle_message parse message st =
     (if startsWith message ''data: '' then
        (case parse (drop 6 message) of
           Inl m \<Rightarrow> Inl (ErrorObj m)
         | Inr result \<Rightarrow>
             if nullish result
             then Inl (ErrorObj (null_read_message ''progress''))
             else Inr (st\<lparr>files := merge_ingestion result (files st),
                          ingestionProgress := get result ''progress''\<rparr>))
      else Inr st)"

lemma indexOf_nn_nonempty: "indexOf nn buffer = Some boundary \<Longrightarrow> buffer \<noteq> []"
  by (cases buffer) (auto simp: nn_def)

text \<open>
  The inner \<^verbatim>\<open>while (boundary !== -1)\<close> loop (lines 121-148): the result is the buffer
  left over and the state, or the exception with the state reached when it was thrown.
\<close>

function process_buffer ::
  "parser \<Rightarrow> string \<Rightarrow> app_state \<Rightarrow> thrown \<times> app_state + string \<times> app_state" where
  "process_buffer parse buffer st =
     (case indexOf nn buffer of
        None \<Rightarrow> Inr (buffer, st)
      | Some boundary \<Rightarrow>
          (case handle_message parse (take boundary buffer) st of
             Inl e \<Rightarrow> Inl (e, st)
           | Inr st' \<Rightarrow> process_buffer parse (drop (boundary + 2) buffer) st'))"
  by pat_completeness auto
termination
  by (relation "measure (\<lambda>(parse, buffer, st). length buffer)")
     (auto dest: indexOf_nn_nonempty)

declare process_buffer.simps [simp del]

text \<open>The outer \<^verbatim>\<open>while (true)\<close> loop over \<^verbatim>\<open>reader.read()\<close> (lines 113-149).\<close>

fun read_loop ::
  "parser \<Rightarrow> string list \<Rightarrow> thrown option \<Rightarrow> string \<Rightarrow> app_state
     \<Rightarrow> thrown \<times> app_state + app_state" where
  "read_loop parse [] ending buffer st =
     (case ending of None \<Rightarrow> Inr st | Some e \<Rightarrow> Inl (e, st))"
| "read_loop parse (chunk # chunks) ending buffer st =
     (case process_buffer parse (buffer @ chunk) st of
        Inl x \<Rightarrow> Inl x
      | Inr (buffer', st') \<Rightarrow> read_loop parse chunks ending buffer' st')"

text \<open>\<^verbatim>\<open>error instanceof Error ? error.message : "An unknown error occurred."\<close>\<close>

fun errorMessage :: "thrown \<Rightarrow> string" where
  "errorMessage (ErrorObj m) = m"
| "errorMessage (Thrown v) = ''An unknown error occurred.''"

text \<open>The updater of \<^verbatim>\<open>setFiles\<close> in the \<^verbatim>\<open>catch\<close> block (lines 155-165).\<close>

definition mark_pending_failed :: "FileData list \<Rightarrow> FileData list" where
  "mark_pending_failed prevFiles =
     map (\<lambda>f. if ingestionStatus f = JStr ''pending''
               then f\<lparr>ingestionStatus := JStr ''failed'',
                      error := JStr ''Connection error during ingestion.''\<rparr>
               else f) prevFiles"

text \<open>The updater of \<^verbatim>\<open>setFiles\<close> at the start of a pass (lines 71-82).\<close>

definition set_pending :: "FileData list \<Rightarrow> FileData list \<Rightarrow> FileData list" where
  "set_pending filesToProcess prevFiles =
     map (\<lambda>f. if id' f \<in> set (map id' filesToProcess)
               then f\<lparr>ingestionStatus := JStr ''pending'',
                      ingestionDetails := JNull,
                      error := Undefined\<rparr>
               else f) prevFiles"

text \<open>
  \<^verbatim>\<open>handleIngestion\<close> (lines 64-169) in its parts: the statements before the
  \<^verbatim>\<open>try\<close>, the \<^verbatim>\<open>try\<close> block, the \<^verbatim>\<open>catch\<close> block, and the whole with its
  \<^verbatim>\<open>finally\<close>.
\<close>

definition begin_ingestion :: "FileData list \<Rightarrow> app_state \<Rightarrow> app_state" where
  "begin_ingestion filesToProcess st =
     st\<lparr>isIngesting := True, apiError := None, ingestionProgress := JNum 0,
        files := set_pending filesToProcess (files st)\<rparr>"

definition try_ingestion ::
  "parser \<Rightarrow> response \<Rightarrow> app_state \<Rightarrow> thrown \<times> app_state + app_state" where
  "try_ingestion parse resp st =
     (case resp of
        Failed e \<Rightarrow> Inl (e, st)
      | Body chunks ending \<Rightarrow> read_loop parse chunks ending [] st)"

definition catch_ingestion :: "thrown \<Rightarrow> app_state \<Rightarrow> app_state" where
  "catch_ingestion e st =
     st\<lparr>apiError := Some (errorMessage e),
        files := mark_pending_failed (files st)\<rparr>"

definition handleIngestion ::
  "parser \<Rightarrow> FileData list \<Rightarrow> response \<Rightarrow> app_state \<Rightarrow> app_state" where
  "handleIngestion parse filesToProcess resp st =
     (if filesToProcess = [] then st
      else
        case try_ingestion parse resp (begin_ingestion filesToProcess st) of
          Inr st2 \<Rightarrow> st2\<lparr>isIngesting := False\<rparr>
        | Inl (e, st2) \<Rightarrow> (catch_ingestion e st2)\<lparr>isIngesting := False\<rparr>)"

text \<open>
  The selected files of the render (line 62); \<^verbatim>\<open>startIngestion\<close> (lines 172-175)
  computes its \<^verbatim>\<open>filesToIngest\<close> with the same filter.
\<close>

definition selectedFiles_IP :: "FileData list \<Rightarrow> FileData list" where
  "selectedFiles_IP fs = filter (\<lambda>f. selected f \<and> processed f) fs"

text \<open>\<^verbatim>\<open>startIngestion\<close> and \<^verbatim>\<open>retryFailedIngestion\<close> (lines 172-181).\<close>

definition startIngestion :: "parser \<Rightarrow> response \<Rightarrow> app_state \<Rightarrow> app_state" where
  "startIngestion parse resp st =
     handleIngestion parse (selectedFiles_IP (files st)) resp st"

definition failedFiles_IP :: "FileData list \<Rightarrow> FileData list" where
  "failedFiles_IP fs = filter (\<lambda>f. ingestionStatus f = JStr ''failed'') fs"

definition retryFailedIngestion :: "parser \<Rightarrow> response \<Rightarrow> app_state \<Rightarrow> app_state" where
  "retryFailedIngestion parse resp st =
     handleIngestion parse (failedFiles_IP (files st)) resp st"

text \<open>The counts of the render (lines 237-245).\<close>

definition successCount :: "FileData list \<Rightarrow> nat" where
  "successCount fs =
     length (filter (\<lambda>f. ingestionStatus f = JStr ''success'') (selectedFiles_IP fs))"

definition failedCount :: "FileData list \<Rightarrow> nat" where
  "failedCount fs =
     length (filter (\<lambda>f. ingestionStatus f = JStr ''failed'') (selectedFiles_IP fs))"

definition pendingCount :: "FileData list \<Rightarrow> nat" where
  "pendingCount fs =
     length (filter (\<lambda>f. ingestionStatus f = JStr ''pending'') (selectedFiles_IP fs))"

section \<open>FileProcessing.processFiles (file-processing.tsx)\<close>

text \<open>The line numbers of this section are those of file-processing.tsx.\<close>

text \<open>
  The frames are found with
  \<^verbatim>\<open>/(?:^|\n)data:\s*((?:.|\n)*?)(?=\n\n|$)/g\<close>.
  A match is the captured text and the text from \<^verbatim>\<open>lastIndex\<close> on. \<^verbatim>\<open>\s\<close> and
  \<^verbatim>\<open>trim\<close> take the white space and line terminators below 256; \<^verbatim>\<open>.\<close> refuses the
  line terminators, so \<^verbatim>\<open>(?:.|\n)\<close> refuses the carriage return only.
\<close>

definition isSpace :: "char \<Rightarrow> bool" where
  "isSpace c =
     (c \<in> {CHR 0x09, CHR 0x0A, CHR 0x0B, CHR 0x0C, CHR 0x0D, CHR 0x20, CHR 0xA0})"

text \<open>
  \<^verbatim>\<open>((?:.|\n)*?)(?=\n\n|$)\<close>: the shortest run of admissible characters after which the
  lookahead holds.
\<close>

fun lazy_any :: "string \<Rightarrow> (string \<times> string) option" where
  "lazy_any [] = Some ([], [])"
| "lazy_any (c # cs) =
     (if take 2 (c # cs) = nn then Some ([], c # cs)
      else if c \<noteq> CHR 0x0D
        then map_option (\<lambda>(m, rest). (c # m, rest)) (lazy_any cs)
      else None)"

text \<open>
  \<^verbatim>\<open>\s*\<close> followed by the rest of the pattern: greedy, giving characters back one at
  a time when the rest fails.
\<close>

fun spaces_then :: "string \<Rightarrow> (string \<times> string) option" where
  "spaces_then [] = lazy_any []"
| "spaces_then (c # cs) =
     (if isSpace c
      then (case spaces_then cs of Some r \<Rightarrow> Some r | None \<Rightarrow> lazy_any (c # cs))
      else lazy_any (c # cs))"

text \<open>
  A match that starts at the current position; \<open>at_start\<close> says that the position is
  index 0, where \<^verbatim>\<open>^\<close> holds. The alternative \<^verbatim>\<open>^\<close> is tried before \<^verbatim>\<open>\n\<close>.
\<close>

definition match_at :: "bool \<Rightarrow> string \<Rightarrow> (string \<times> string) option" where
  "match_at at_start s =
     (case (if at_start \<and> take 5 s = ''data:'' then spaces_then (drop 5 s) else None) of
        Some r \<Rightarrow> Some r
      | None \<Rightarrow>
          if take 6 s = CHR 0x0A # ''data:'' then spaces_then (drop 6 s) else None)"

text \<open>\<^verbatim>\<open>dataBlockRegex.exec(buffer)\<close> from the current \<^verbatim>\<open>lastIndex\<close>: the first position that matches.\<close>

fun exec :: "bool \<Rightarrow> string \<Rightarrow> (string \<times> string) option" where
  "exec at_start [] = match_at at_start []"
| "exec at_start (c # cs) =
     (case match_at at_start (c # cs) of
        Some r \<Rightarrow> Some r
      | None \<Rightarrow> exec False cs)"

definition trim :: "string \<Rightarrow> string" where
  "trim s = rev (dropWhile isSpace (rev (dropWhile isSpace s)))"

lemma lazy_any_length: "lazy_any s = Some (m, rest) \<Longrightarrow> length rest \<le> length s"
  by (induction s arbitrary: m) (auto split: if_splits)

lemma spaces_then_length: "spaces_then s = Some (m, rest) \<Longrightarrow> length rest \<le> length s"
proof (induction s)
  case Nil
  then show ?case by simp
next
  case (Cons c cs)
  then show ?case
    by (auto split: if_splits option.splits dest!: lazy_any_length)
qed

lemma match_at_length: "match_at b s = Some (m, rest) \<Longrightarrow> length rest < length s"
proof -
  assume a: "match_at b s = Some (m, rest)"
  have five: "take 5 s = ''data:'' \<Longrightarrow> 5 \<le> length s"
    by (cases "5 \<le> length s") auto
  have six: "take 6 s = CHR 0x0A # ''data:'' \<Longrightarrow> 6 \<le> length s"
    by (cases "6 \<le> length s") auto
  from a show ?thesis
    unfolding match_at_def
    by (auto split: if_splits option.splits dest!: spaces_then_length five six)
qed

lemma exec_length: "exec b s = Some (m, rest) \<Longrightarrow> length rest < length s"
proof (induction s arbitrary: b)
  case Nil
  then show ?case by (simp add: match_at_def)
next
  case (Cons c cs)
  show ?case
  proof (cases "match_at b (c # cs)")
    case None
    with Cons.prems have "exec False cs = Some (m, rest)" by simp
    from Cons.IH [OF this] show ?thesis by simp
  next
    case (Some r)
    with Cons.prems have "match_at b (c # cs) = Some (m, rest)" by simp
    then show ?thesis by (rule match_at_length)
  qed
qed

text \<open>\<^verbatim>\<open>payload.fileId ?? payload.file_id ?? null\<close>\<close>

definition chosen_id :: "jsval \<Rightarrow> jsval" where
  "chosen_id payload =
     coalesce (coalesce (get payload ''fileId'') (get payload ''file_id'')) JNull"

text \<open>Lines 133-140: the analysis, unwrapped from its \<^verbatim>\<open>json\<close> property when it has one.\<close>

definition unwrap_analysis :: "jsval \<Rightarrow> jsval" where
  "unwrap_analysis payload =
     (let analysis = coalesce (get payload ''analysis'') JNull
      in if truthy analysis \<and> has_key analysis ''json''
         then get analysis ''json'' else analysis)"

text \<open>The object a matching file becomes (lines 145-160).\<close>

definition processed_file :: "jsval \<Rightarrow> jsval \<Rightarrow> FileData \<Rightarrow> FileData" where
  "processed_file payload analysis' f =
     (let parseAccuracy =
            coalesce (if truthy analysis'
                      then coalesce (get analysis' ''quality_score'') (get analysis' ''quality'')
                      else analysis') Undefined
      in f\<lparr>processed := True,
            qualityMetrics := (if is_number parseAccuracy
                               then JObj [(''parseAccuracy'', parseAccuracy)]
                               else Undefined),
            analysis := coalesce (coalesce analysis' (get payload ''analysis'')) payload,
            error := coalesce (get payload ''error'') Undefined\<rparr>)"

text \<open>
  The \<^verbatim>\<open>prevFiles.map\<close> of the updater. \<open>guarded\<close> is False for processFiles, which
  tests \<^verbatim>\<open>f.id === fileId\<close> (line 144), and True for the earlier startProcessing
  (part 002, line 167), which tests \<^verbatim>\<open>f.id === fileId && !f.processed\<close>; the two
  updaters differ in nothing else.
\<close>

definition merge_processing ::
  "bool \<Rightarrow> jsval \<Rightarrow> jsval \<Rightarrow> jsval \<Rightarrow> FileData list \<Rightarrow> FileData list" where
  "merge_processing guarded payload fileId analysis' prevFiles =
     map (\<lambda>f. if JStr (id' f) = fileId \<and> \<not> (guarded \<and> processed f)
               then processed_file payload analysis' f
               else f) prevFiles"

text \<open>
  The body of the match loop for one match (lines 123-177), \<open>rawData\<close> being the
  trimmed capture. The \<^verbatim>\<open>try\<close> catches the SyntaxError of \<^verbatim>\<open>JSON.parse\<close> and the
  TypeError of reading \<^verbatim>\<open>fileId\<close> of null; both leave the state as it is.
  \<open>selectedFiles\<close> is the list the render computed.
\<close>

definition handle_match ::
  "bool \<Rightarrow> parser \<Rightarrow> FileData list \<Rightarrow> string \<Rightarrow> app_state \<Rightarrow> app_state" where
  "handle_match guarded parse selectedFiles rawData st =
     (case parse rawData of
        Inl m \<Rightarrow> st
      | Inr payload \<Rightarrow>
          if nullish payload then st
          else
            let fileId = chosen_id payload
            in if \<not> truthy fileId then st
               else
                 let updated = merge_processing guarded payload fileId
                                 (unwrap_analysis payload) (files st);
                     processedSoFar =
                       length (filter (\<lambda>f. selected f \<and> processed f) updated)
                 in st\<lparr>files := updated,
                        processedFileCount := processedSoFar,
                        processingProgress :=
                          of_nat processedSoFar
                            / of_nat (max 1 (length selectedFiles)) * 100\<rparr>)"

text \<open>
  The \<^verbatim>\<open>while ((match = dataBlockRegex.exec(buffer)) !== null)\<close> loop followed by
  \<^verbatim>\<open>buffer = buffer.slice(lastIndex)\<close>: the buffer kept and the state.
\<close>

function match_loop ::
  "bool \<Rightarrow> parser \<Rightarrow> FileData list \<Rightarrow> bool \<Rightarrow> string \<Rightarrow> app_state
     \<Rightarrow> string \<times> app_state" where
  "match_loop guarded parse selectedFiles at_start buffer st =
     (case exec at_start buffer of
        None \<Rightarrow> (buffer, st)
      | Some (m, rest) \<Rightarrow>
          match_loop guarded parse selectedFiles False rest
            (handle_match guarded parse selectedFiles (trim m) st))"
  by pat_completeness auto
termination
  by (relation "measure (\<lambda>(guarded, parse, selectedFiles, at_start, buffer, st). length buffer)")
     (auto dest: exec_length)

declare match_loop.simps [simp del]

text \<open>The \<^verbatim>\<open>while (true)\<close> loop over \<^verbatim>\<open>reader.read()\<close> (lines 111-180).\<close>

fun read_matches ::
  "bool \<Rightarrow> parser \<Rightarrow> FileData list \<Rightarrow> string list \<Rightarrow> thrown option \<Rightarrow> string
     \<Rightarrow> app_state \<Rightarrow> thrown \<times> app_state + app_state" where
  "read_matches guarded parse selectedFiles [] ending buffer st =
     (case ending of None \<Rightarrow> Inr st | Some e \<Rightarrow> Inl (e, st))"
| "read_matches guarded parse selectedFiles (chunk # chunks) ending buffer st =
     (case match_loop guarded parse selectedFiles True (buffer @ chunk) st of
        (buffer', st') \<Rightarrow>
          read_matches guarded parse selectedFiles chunks ending buffer' st')"

text \<open>
  \<^verbatim>\<open>err.message || "An unknown error occurred. Is the backend running?"\<close>, the argument
  of \<^verbatim>\<open>setError\<close> in the \<^verbatim>\<open>catch\<close>. When the value thrown is null or undefined,
  reading its \<^verbatim>\<open>message\<close> throws inside the \<^verbatim>\<open>catch\<close> (\<open>None\<close>) and \<^verbatim>\<open>setError\<close> is
  not called.
\<close>

definition unknown_error_text :: string where
  "unknown_error_text = ''An unknown error occurred. Is the backend running?''"

fun messageOrDefault :: "thrown \<Rightarrow> jsval option" where
  "messageOrDefault (ErrorObj m) = Some (JStr (if m \<noteq> [] then m else unknown_error_text))"
| "messageOrDefault (Thrown v) =
     (if nullish v then None
      else if truthy (get v ''message'') then Some (get v ''message'')
      else Some (JStr unknown_error_text))"

text \<open>
  \<^verbatim>\<open>processFiles\<close> (lines 74-190) in its parts: the statements before the \<^verbatim>\<open>try\<close>,
  the \<^verbatim>\<open>try\<close> block, the \<^verbatim>\<open>catch\<close> block (lines 182-186), and the whole with its
  \<^verbatim>\<open>finally\<close>. No exception of the match loop leaves it, so the \<^verbatim>\<open>catch\<close> receives
  what the request or the reader threw.
\<close>

definition begin_processing :: "app_state \<Rightarrow> app_state" where
  "begin_processing st = st\<lparr>isProcessing := True, error_FP := JNull\<rparr>"

definition try_processing ::
  "parser \<Rightarrow> FileData list \<Rightarrow> response \<Rightarrow> app_state \<Rightarrow> thrown \<times> app_state + app_state" where
  "try_processing parse selectedFiles resp st =
     (case resp of
        Failed e \<Rightarrow> Inl (e, st)
      | Body chunks ending \<Rightarrow> read_matches False parse selectedFiles chunks ending [] st)"

definition catch_processing :: "thrown \<Rightarrow> app_state \<Rightarrow> app_state" where
  "catch_processing e st =
     (case messageOrDefault e of
        None \<Rightarrow> st
      | Some v \<Rightarrow> st\<lparr>error_FP := v\<rparr>)"

definition processFiles ::
  "parser \<Rightarrow> FileData list \<Rightarrow> FileData list \<Rightarrow> response \<Rightarrow> app_state \<Rightarrow> app_state" where
  "processFiles parse selectedFiles filesToProcess resp st =
     (if filesToProcess = [] then st
      else
        case try_processing parse selectedFiles resp (begin_processing st) of
          Inr st2 \<Rightarrow> st2\<lparr>isProcessing := False\<rparr>
        | Inl (e, st2) \<Rightarrow> (catch_processing e st2)\<lparr>isProcessing := False\<rparr>)"

text \<open>The reset of the selected files (lines 195-207 and part 002, lines 80-92).\<close>

definition reset_selected :: "FileData list \<Rightarrow> FileData list" where
  "reset_selected prevFiles =
     map (\<lambda>f. if selected f
               then f\<lparr>processed := False, qualityMetrics := Undefined,
                      analysis := Undefined, error := Undefined\<rparr>
               else f) prevFiles"

text \<open>
  \<^verbatim>\<open>startProcessing\<close> of file-processing.tsx (lines 192-211); \<^verbatim>\<open>selectedFiles\<close> is
  the list of the render in which the handler was created.
\<close>

definition startProcessing :: "parser \<Rightarrow> response \<Rightarrow> app_state \<Rightarrow> app_state" where
  "startProcessing parse resp st =
     (let selectedFiles = filter selected (files st)
      in processFiles parse selectedFiles selectedFiles resp
           (st\<lparr>processingProgress := 0, processedFileCount := 0,
               files := reset_selected (files st)\<rparr>))"

section \<open>The earlier FileProcessing.startProcessing (part 002)\<close>

text \<open>
  The same stream loop with the guarded updater, inside the handler itself.
  \<^verbatim>\<open>processedCount\<close> is declared as 0 (line 123) and never assigned, so the final
  progress (lines 215-219) is computed from 0. There is no early return for an empty
  selection.
\<close>

definition startProcessing_part002 :: "parser \<Rightarrow> response \<Rightarrow> app_state \<Rightarrow> app_state" where
  "startProcessing_part002 parse resp st =
     (let selected' = filter selected (files st);
          processedCount = (0::nat);
          st1 = st\<lparr>isProcessing := True, processingProgress := 0, error_FP := JNull,
                   processedFileCount := 0, files := reset_selected (files st)\<rparr>
      in case (case resp of
                 Failed e \<Rightarrow> Inl (e, st1)
               | Body chunks ending \<Rightarrow>
                   read_matches True parse selected' chunks ending [] st1) of
           Inr st2 \<Rightarrow>
             st2\<lparr>processingProgress :=
                   (if processedCount = length selected' then 100
                    else of_nat processedCount / of_nat (max 1 (length selected')) * 100),
                 isProcessing := False\<rparr>
         | Inl (e, st2) \<Rightarrow>
             (case messageOrDefault e of
                None \<Rightarrow> st2\<lparr>isProcessing := False\<rparr>
              | Some v \<Rightarrow>
                  st2\<lparr>error_FP := v, processingProgress := 0, isProcessing := False\<rparr>))"

section \<open>Sample data\<close>

text \<open>
  The object \<^verbatim>\<open>handleFileUpload\<close> creates for a picked file (FileSelection, lines
  58-70): selected, not processed, every optional field absent.
\<close>

definition newFile :: "string \<Rightarrow> string \<Rightarrow> FileData" where
  "newFile i n =
     \<lparr>id' = i, name = n, selected = True, processed = False,
      qualityMetrics = Undefined, ingestionStatus = Undefined,
      ingestionDetails = Undefined, analysis = Undefined, error = Undefined\<rparr>"

text \<open>The state of the page when it is first rendered with the files \<open>fs\<close>.\<close>

definition initial_state :: "FileData list \<Rightarrow> app_state" where
  "initial_state fs =
     \<lparr>files = fs, processingProgress = 0, ingestionProgress = JNum 0,
      isProcessing = False, error_FP = JNull, processedFileCount = 0,
      isIngesting = False, apiError = None\<rparr>"

text \<open>
  The values \<^verbatim>\<open>JSON.parse\<close> returns on the payloads of the examples.
\<close>

definition event_A_success :: jsval where
  "event_A_success =
     JObj [(''fileId'', JStr ''A''), (''status'', JStr ''success''), (''progress'', JNum 50)]"

definition event_A_failed :: jsval where
  "event_A_failed =
     JObj [(''fileId'', JStr ''A''), (''status'', JStr ''failed''),
           (''error'', JStr ''timeout''), (''progress'', JNum 100)]"

definition event_B_success :: jsval where
  "event_B_success =
     JObj [(''fileId'', JStr ''B''), (''status'', JStr ''success''), (''progress'', JNum 100)]"

definition event_Z :: jsval where
  "event_Z =
     JObj [(''fileId'', JStr ''Z''), (''status'', JStr ''success''), (''progress'', JNum 100)]"

definition payload_A :: jsval where
  "payload_A = JObj [(''file_id'', JStr ''A''), (''status'', JStr ''success'')]"

definition payload_B :: jsval where
  "payload_B =
     JObj [(''file_id'', JStr ''B''), (''status'', JStr ''failed''),
           (''error'', JStr ''timeout'')]"

definition payload_empty_id :: jsval where
  "payload_empty_id = JObj [(''fileId'', JStr []), (''file_id'', JStr ''A'')]"

text \<open>
  \<^verbatim>\<open>JSON.parse\<close> on the texts of the examples: every other text used there is not JSON,
  and the message of \<open>Inl\<close> stands for the engine's.
\<close>

definition JSON_parse_table :: parser where
  \<open>JSON_parse_table s =
     (if s = ''{"fileId":"A","status":"success","progress":50}'' then Inr event_A_success
      else if s = ''{"fileId":"A","status":"failed","error":"timeout","progress":100}''
        then Inr event_A_failed
      else if s = ''{"fileId":"B","status":"success","progress":100}''
        then Inr event_B_success
      else if s = ''{"fileId":"Z","status":"success","progress":100}'' then Inr event_Z
      else if s = ''{"file_id":"A","status":"success"}'' then Inr payload_A
      else if s = ''{"file_id":"B","status":"failed","error":"timeout"}'' then Inr payload_B
      else if s = ''{"fileId":"","file_id":"A"}'' then Inr payload_empty_id
      else Inl ''Unexpected end of JSON input'')\<close>

text \<open>Two files after upload, and the same two once processed.\<close>

definition file_A :: FileData where
  "file_A = newFile ''A'' ''a.pdf''"

definition file_B :: FileData where
  "file_B = newFile ''B'' ''b.pdf''"

definition done_A :: FileData where
  "done_A = file_A\<lparr>processed := True\<rparr>"

definition done_B :: FileData where
  "done_B = file_B\<lparr>processed := True\<rparr>"

text \<open>B deselected by the user, after upload and once processed.\<close>

definition deselected_B :: FileData where
  "deselected_B = file_B\<lparr>selected := False\<rparr>"

definition deselected_done_B :: FileData where
  "deselected_done_B = done_B\<lparr>selected := False\<rparr>"

text \<open>
  The processing stream of the scenario of the specification: the event of A, then the
  event of B cut in two reads. A frame whose \<^verbatim>\<open>fileId\<close> is the empty string.
\<close>

definition frame_A :: string where
  \<open>frame_A = ''data: {"file_id":"A","status":"success"}\<newline>\<newline>''\<close>

definition frame_B_head :: string where
  \<open>frame_B_head = ''data: {"file_id":"B","status":"fail''\<close>

definition frame_B_tail :: string where
  \<open>frame_B_tail = ''ed","error":"timeout"}\<newline>\<newline>''\<close>

definition frame_empty_id :: string where
  \<open>frame_empty_id = ''data: {"fileId":"","file_id":"A"}\<newline>\<newline>''\<close>

text \<open>
  Messages of the ingestion stream, and the frames they make with the blank line: two
  events of A, an event of B, an event cut before its end, and a comment line.
\<close>

definition message_A_success :: string where
  \<open>message_A_success = ''data: {"fileId":"A","status":"success","progress":50}''\<close>

definition frame_A_success :: string where
  "frame_A_success = message_A_success @ nn"

definition frame_A_failed :: string where
  \<open>frame_A_failed =
     ''data: {"fileId":"A","status":"failed","error":"timeout","progress":100}\<newline>\<newline>''\<close>

definition frame_B_success :: string where
  \<open>frame_B_success = ''data: {"fileId":"B","status":"success","progress":100}\<newline>\<newline>''\<close>

definition frame_malformed :: string where
  \<open>frame_malformed = ''data: {"fileId":"A","status":\<newline>\<newline>''\<close>

definition frame_comment :: string where
  \<open>frame_comment = '': keep-alive\<newline>\<newline>''\<close>

text \<open>A rejection of \<^verbatim>\<open>reader.read()\<close>.\<close>

definition network_error :: thrown where
  "network_error = ErrorObj ''network error''"

section \<open>Frame extraction\<close>

subsection \<open>handleIngestion: the frames do not depend on the reads\<close>

lemma indexOf_nn_Nil: "indexOf nn [] = None"
  by (simp add: nn_def)

lemma indexOf_nn_Cons:
  "indexOf nn (c # cs) =
     (if take 2 (c # cs) = nn then Some 0 else map_option Suc (indexOf nn cs))"
  by (simp add: nn_def)

lemma take2_nn_length: "take 2 s = nn \<Longrightarrow> 2 \<le> length s"
proof -
  assume "take 2 s = nn"
  then have "length (take 2 s) = 2" by (simp add: nn_def)
  then show ?thesis by simp
qed

lemma indexOf_nn_bound: "indexOf nn s = Some k \<Longrightarrow> k + 2 \<le> length s"
proof (induction s arbitrary: k)
  case Nil
  then show ?case by (simp add: nn_def)
next
  case (Cons c cs)
  show ?case
  proof (cases "take 2 (c # cs) = nn")
    case True
    with Cons.prems have "k = 0" by (simp add: indexOf_nn_Cons del: indexOf.simps)
    with take2_nn_length [OF True] show ?thesis by simp
  next
    case False
    with Cons.prems have "map_option Suc (indexOf nn cs) = Some k"
      by (simp only: indexOf_nn_Cons if_False)
    then obtain k' where "indexOf nn cs = Some k'" "k = Suc k'" by auto
    with Cons.IH show ?thesis by auto
  qed
qed

text \<open>A boundary found in the buffer is still the first one after more text arrives.\<close>

lemma indexOf_nn_append: "indexOf nn s = Some k \<Longrightarrow> indexOf nn (s @ t) = Some k"
proof (induction s arbitrary: k)
  case Nil
  then show ?case by (simp add: nn_def)
next
  case (Cons c cs)
  from indexOf_nn_bound [OF Cons.prems] have "2 \<le> length (c # cs)" by simp
  then have t: "take 2 (c # (cs @ t)) = take 2 (c # cs)" by simp
  show ?case
  proof (cases "take 2 (c # cs) = nn")
    case True
    with Cons.prems have "k = 0" by (simp add: indexOf_nn_Cons del: indexOf.simps)
    with True t show ?thesis
      unfolding append_Cons indexOf_nn_Cons [of c "cs @ t"] by (simp only: simp_thms if_True)
  next
    case False
    with Cons.prems have "map_option Suc (indexOf nn cs) = Some k"
      by (simp only: indexOf_nn_Cons if_False)
    then obtain k' where k': "indexOf nn cs = Some k'" "k = Suc k'" by auto
    from Cons.IH [OF k'(1)] have "indexOf nn (cs @ t) = Some k'" .
    with False t k'(2) show ?thesis
      unfolding append_Cons indexOf_nn_Cons [of c "cs @ t"]
      by (simp only: simp_thms if_False option.map)
  qed
qed

lemma process_buffer_None:
  "indexOf nn b = None \<Longrightarrow> process_buffer parse b st = Inr (b, st)"
  by (subst process_buffer.simps) simp

lemma process_buffer_Some:
  "indexOf nn b = Some k \<Longrightarrow>
   process_buffer parse b st =
     (case handle_message parse (take k b) st of
        Inl e \<Rightarrow> Inl (e, st)
      | Inr st' \<Rightarrow> process_buffer parse (drop (k + 2) b) st')"
  by (subst process_buffer.simps) simp

text \<open>
  Processing a buffer and then the text that follows is processing both at once: an
  exception stays the same exception, and otherwise the kept buffer takes the place of
  the processed one.
\<close>

lemma process_buffer_append:
  "(process_buffer parse b st = Inl x \<longrightarrow> process_buffer parse (b @ c) st = Inl x)
   \<and> (process_buffer parse b st = Inr (b', st')
       \<longrightarrow> process_buffer parse (b @ c) st = process_buffer parse (b' @ c) st')"
proof (induction parse b st rule: process_buffer.induct)
  case (1 parse buffer st)
  show ?case
  proof (cases "indexOf nn buffer")
    case None
    then show ?thesis by (simp add: process_buffer_None)
  next
    case (Some k)
    from indexOf_nn_bound [OF Some] have len: "k + 2 \<le> length buffer" .
    have a: "indexOf nn (buffer @ c) = Some k" by (rule indexOf_nn_append [OF Some])
    have tk: "take k (buffer @ c) = take k buffer" using len by simp
    have dr: "drop (Suc (Suc k)) (buffer @ c) = drop (Suc (Suc k)) buffer @ c"
      using len by simp
    show ?thesis
    proof (cases "handle_message parse (take k buffer) st")
      case (Inl e)
      then show ?thesis
        by (simp add: process_buffer_Some [OF Some] process_buffer_Some [OF a] tk
              del: take_append drop_append)
    next
      case (Inr s1)
      from "1.IH" [OF Some Inr]
      show ?thesis
        by (simp add: process_buffer_Some [OF Some] process_buffer_Some [OF a] tk dr Inr
              del: take_append drop_append)
    qed
  qed
qed

text \<open>The buffer kept between two reads holds no boundary.\<close>

lemma process_buffer_leftover:
  "process_buffer parse b st = Inr (b', st') \<Longrightarrow> indexOf nn b' = None"
proof (induction parse b st rule: process_buffer.induct)
  case (1 parse buffer st)
  show ?case
  proof (cases "indexOf nn buffer")
    case None
    with "1.prems" show ?thesis by (simp add: process_buffer_None)
  next
    case (Some k)
    show ?thesis
    proof (cases "handle_message parse (take k buffer) st")
      case (Inl e)
      with "1.prems" Some show ?thesis by (simp add: process_buffer_Some)
    next
      case (Inr s1)
      with "1.prems" Some
      have "process_buffer parse (drop (k + 2) buffer) s1 = Inr (b', st')"
        by (simp add: process_buffer_Some)
      from "1.IH" [OF Some Inr this] show ?thesis .
    qed
  qed
qed

lemma read_loop_one_chunk:
  "indexOf nn b = None \<Longrightarrow>
   read_loop parse chunks ending b st = read_loop parse [concat chunks] ending b st"
proof (induction chunks arbitrary: b st)
  case Nil
  then show ?case by (simp add: process_buffer_None)
next
  case (Cons c cs)
  show ?case
  proof (cases "process_buffer parse (b @ c) st")
    case (Inl x)
    with process_buffer_append [of parse "b @ c" st x "concat cs"]
    show ?thesis by simp
  next
    case (Inr r)
    obtain b' st' where r: "r = (b', st')" by (cases r)
    from Inr r have pb: "process_buffer parse (b @ c) st = Inr (b', st')" by simp
    from process_buffer_leftover [OF pb] have "indexOf nn b' = None" .
    from Cons.IH [OF this]
    have ih: "read_loop parse cs ending b' st' = read_loop parse [concat cs] ending b' st'" .
    from process_buffer_append [of parse "b @ c" st _ "concat cs" b' st'] pb
    have "process_buffer parse (b @ c @ concat cs) st
            = process_buffer parse (b' @ concat cs) st'" by simp
    with pb ih show ?thesis by simp
  qed
qed

text \<open>
  The stream loop of handleIngestion ends in the same state (or with the same exception
  in the same state) whether the text arrives in the given reads or in a single one: the
  same messages are handled in the same order, none early and none twice.
\<close>

lemma read_loop_chunk_invariant:
  "read_loop parse chunks ending [] st = read_loop parse [concat chunks] ending [] st"
  by (rule read_loop_one_chunk) (rule indexOf_nn_Nil)

subsection \<open>processFiles: a frame cut by a read is lost\<close>

text \<open>
  C1. Feeding the chunks one at a time must give the same frames as feeding the whole
  stream at once, and a partial trailing frame must not be emitted early. processFiles
  breaks this: the lookahead of its pattern also accepts the end of the buffer, so the
  head of a frame cut by a read is taken as a frame (and fails to parse), the buffer is
  emptied, and the tail that arrives next no longer starts with \<^verbatim>\<open>data:\<close>. With the
  stream of the specification's scenario, the second read leaves the buffer as the
  blank line kept from the first read followed by the head of B's frame, and the match
  takes that head and keeps nothing; B is processed when the stream comes in one chunk
  and is lost when its frame is cut in two.
\<close>

theorem C1_processFiles_cut_frame_is_lost:
  \<open>exec True (nn @ frame_B_head) = Some (''{"file_id":"B","status":"fail'', [])
   \<and> map processed
        (files (startProcessing JSON_parse_table
                  (Body [frame_A, frame_B_head, frame_B_tail] None)
                  (initial_state [file_A, file_B])))
      = [True, False]
   \<and> map processed
        (files (startProcessing JSON_parse_table
                  (Body [frame_A @ frame_B_head @ frame_B_tail] None)
                  (initial_state [file_A, file_B])))
      = [True, True]\<close>
  by code_simp

section \<open>Frames that cannot be decoded\<close>

text \<open>
  In processFiles (and the earlier startProcessing) a frame that does not parse, or
  parses to null, leaves the state as it is; the match loop then goes on.
\<close>

lemma handle_match_decode_failure:
  "parse rawData = Inl m \<or> parse rawData = Inr JNull
     \<Longrightarrow> handle_match guarded parse selectedFiles rawData st = st"
  by (auto simp: handle_match_def)

text \<open>
  C2. A frame that cannot be parsed must be skipped without aborting the stream or
  changing any entity. handleIngestion calls \<^verbatim>\<open>JSON.parse\<close> outside any local
  \<^verbatim>\<open>try\<close>: the SyntaxError reaches the \<^verbatim>\<open>catch\<close> of the whole pass, which reports it
  as the pass's error and marks every pending file as failed; the valid event of A that
  follows is never read. Without the bad frame the same event marks A as success.
\<close>

theorem C2_handleIngestion_malformed_frame_aborts:
  "map ingestionStatus
     (files (startIngestion JSON_parse_table (Body [frame_malformed, frame_A_success] None)
               (initial_state [done_A, done_B])))
     = [JStr ''failed'', JStr ''failed'']
   \<and> map error
     (files (startIngestion JSON_parse_table (Body [frame_malformed, frame_A_success] None)
               (initial_state [done_A, done_B])))
     = [JStr ''Connection error during ingestion.'',
        JStr ''Connection error during ingestion.'']
   \<and> apiError
     (startIngestion JSON_parse_table (Body [frame_malformed, frame_A_success] None)
        (initial_state [done_A, done_B]))
     = Some ''Unexpected end of JSON input''
   \<and> map ingestionStatus
     (files (startIngestion JSON_parse_table (Body [frame_A_success] None)
               (initial_state [done_A, done_B])))
     = [JStr ''success'', JStr ''pending'']"
  by code_simp

text \<open>
  C10. The decoder of processFiles takes \<^verbatim>\<open>fileId\<close> when it is neither undefined nor
  null, and \<^verbatim>\<open>file_id\<close> otherwise. When the value taken is null (both absent) or the
  empty string, the frame changes nothing and the loop goes on after it. So an empty
  \<^verbatim>\<open>fileId\<close> is dropped like a missing one, even beside a usable \<^verbatim>\<open>file_id\<close>.
\<close>

theorem C10_empty_or_missing_id_dropped:
  assumes "exec at_start buffer = Some (m, rest)"
    and "parse (trim m) = Inr payload"
    and "chosen_id payload = JNull \<or> chosen_id payload = JStr []"
  shows "chosen_id payload =
           (if nullish (get payload ''fileId'')
            then (if nullish (get payload ''file_id'') then JNull
                  else get payload ''file_id'')
            else get payload ''fileId'')
       \<and> handle_match guarded parse selectedFiles (trim m) st = st
       \<and> match_loop guarded parse selectedFiles at_start buffer st
           = match_loop guarded parse selectedFiles False rest st"
proof -
  have c: "chosen_id payload =
           (if nullish (get payload ''fileId'')
            then (if nullish (get payload ''file_id'') then JNull
                  else get payload ''file_id'')
            else get payload ''fileId'')"
    by (simp add: chosen_id_def coalesce_def)
  have f: "\<not> truthy (chosen_id payload)" using assms(3) by auto
  have h: "handle_match guarded parse selectedFiles (trim m) st = st"
    using assms(2) f by (simp add: handle_match_def Let_def)
  have "match_loop guarded parse selectedFiles at_start buffer st
           = match_loop guarded parse selectedFiles False rest st"
    using assms(1) h by (subst match_loop.simps) simp
  with c h show ?thesis by simp
qed

text \<open>
  The theorem at the frame \<^verbatim>\<open>{"fileId":"","file_id":"A"}\<close>: the empty \<^verbatim>\<open>fileId\<close> is
  the value taken, and file A stays unprocessed.
\<close>

theorem C10_empty_or_missing_id_dropped_witness:
  \<open>exec True frame_empty_id = Some (''{"fileId":"","file_id":"A"}'', nn)
   \<and> JSON_parse_table (trim ''{"fileId":"","file_id":"A"}'') = Inr payload_empty_id
   \<and> chosen_id payload_empty_id = JStr []
   \<and> match_loop False JSON_parse_table [file_A] True frame_empty_id (initial_state [file_A])
       = (nn, initial_state [file_A])\<close>
proof -
  have e: \<open>exec True frame_empty_id = Some (''{"fileId":"","file_id":"A"}'', nn)\<close>
    by code_simp
  have p: \<open>JSON_parse_table (trim ''{"fileId":"","file_id":"A"}'') = Inr payload_empty_id\<close>
    by code_simp
  have c: "chosen_id payload_empty_id = JStr []"
    by code_simp
  have d: "chosen_id payload_empty_id = JNull \<or> chosen_id payload_empty_id = JStr []"
    using c by simp
  have k: "match_loop False JSON_parse_table [file_A] False nn (initial_state [file_A])
             = (nn, initial_state [file_A])"
    by code_simp
  from C10_empty_or_missing_id_dropped
         [where parse = JSON_parse_table and guarded = False
            and selectedFiles = "[file_A]" and st = "initial_state [file_A]", OF e p d]
  show ?thesis using e p c k by simp
qed

section \<open>Merging an event into the files\<close>

lemma merge_ingestion_idem:
  "merge_ingestion result (merge_ingestion result fs) = merge_ingestion result fs"
  by (simp add: merge_ingestion_def)

lemma merge_ingestion_ids: "map id' (merge_ingestion result fs) = map id' fs"
  by (simp add: merge_ingestion_def)

lemma selected_processed_after_update:
  "(selected (if c then f\<lparr>ingestionStatus := a, ingestionDetails := b, error := e\<rparr> else f)
      \<and> processed (if c then f\<lparr>ingestionStatus := a, ingestionDetails := b, error := e\<rparr>
                      else f))
   = (selected f \<and> processed f)"
  by simp

lemma merge_ingestion_total:
  "length (selectedFiles_IP (merge_ingestion result fs)) = length (selectedFiles_IP fs)"
  unfolding selectedFiles_IP_def merge_ingestion_def filter_map o_def
  by (simp only: length_map selected_processed_after_update)

lemma processed_file_idem:
  "processed_file payload a (processed_file payload a f) = processed_file payload a f"
  by (simp add: processed_file_def Let_def)

lemma processed_file_id: "id' (processed_file payload a f) = id' f"
  by (simp add: processed_file_def Let_def)

lemma processed_file_processed: "processed (processed_file payload a f)"
  by (simp add: processed_file_def Let_def)

lemma processed_file_selected: "selected (processed_file payload a f) = selected f"
  by (simp add: processed_file_def Let_def)

lemma merge_processing_idem:
  "merge_processing guarded payload fileId a (merge_processing guarded payload fileId a fs)
     = merge_processing guarded payload fileId a fs"
  by (simp add: merge_processing_def processed_file_idem processed_file_id
        processed_file_processed)

lemma merge_processing_ids:
  "map id' (merge_processing guarded payload fileId a fs) = map id' fs"
  by (simp add: merge_processing_def processed_file_id)

lemma merge_processing_count_selected:
  "length (filter selected (merge_processing guarded payload fileId a fs))
     = length (filter selected fs)"
  by (induction fs) (auto simp: merge_processing_def processed_file_selected)

lemma merge_processing_guard:
  "\<forall>f \<in> set fs. JStr (id' f) = fileId \<longrightarrow> processed f
     \<Longrightarrow> merge_processing True payload fileId a fs = fs"
  by (auto simp: merge_processing_def intro!: map_idI)

text \<open>
  After the merge of handleIngestion, a file with the event's id has the status, the
  details and the error of the event, whatever it had before.
\<close>

lemma merge_ingestion_overwrites:
  assumes "f \<in> set (merge_ingestion result fs)"
    and "JStr (id' f) = get result ''fileId''"
  shows "ingestionStatus f = get result ''status''
       \<and> ingestionDetails f = get result ''ingestionDetails''
       \<and> error f = (if truthy (get result ''error'') then get result ''error''
                    else Undefined)"
proof -
  define g where
    "g = (\<lambda>f::FileData. if JStr (id' f) = get result ''fileId''
               then f\<lparr>ingestionStatus := get result ''status'',
                      ingestionDetails := get result ''ingestionDetails'',
                      error := (if truthy (get result ''error'')
                                then get result ''error'' else Undefined)\<rparr>
               else f)"
  have "f \<in> g ` set fs"
    using assms(1) unfolding merge_ingestion_def g_def by (simp only: set_map)
  then obtain x where x: "f = g x" by (rule imageE)
  have "id' (g x) = id' x" by (simp add: g_def)
  with assms(2) x have "JStr (id' x) = get result ''fileId''" by simp
  then have "g x = x\<lparr>ingestionStatus := get result ''status'',
                      ingestionDetails := get result ''ingestionDetails'',
                      error := (if truthy (get result ''error'')
                                then get result ''error'' else Undefined)\<rparr>"
    by (simp only: g_def simp_thms if_True)
  with x show ?thesis by simp
qed

text \<open>
  After the merge of processFiles, a file with the event's id is processed and has the
  analysis and the error of the event, whether it was processed before or not.
\<close>

lemma merge_processing_overwrites:
  assumes "f \<in> set (merge_processing False payload fileId a fs)"
    and "JStr (id' f) = fileId"
  shows "processed f
       \<and> analysis f = coalesce (coalesce a (get payload ''analysis'')) payload
       \<and> error f = coalesce (get payload ''error'') Undefined"
proof -
  define g where
    "g = (\<lambda>f::FileData. if JStr (id' f) = fileId \<and> \<not> (False \<and> processed f)
               then processed_file payload a f else f)"
  have "f \<in> g ` set fs"
    using assms(1) unfolding merge_processing_def g_def by (simp only: set_map)
  then obtain x where x: "f = g x" by (rule imageE)
  have "id' (g x) = id' x" by (simp add: g_def processed_file_id)
  with assms(2) x have "JStr (id' x) = fileId" by simp
  then have "g x = processed_file payload a x" by (simp add: g_def)
  with x have "f = processed_file payload a x" by simp
  then show ?thesis by (simp add: processed_file_def Let_def)
qed

lemma merge_ingestion_unknown:
  assumes "get result ''fileId'' \<notin> set (map (\<lambda>f. JStr (id' f)) fs)"
  shows "merge_ingestion result fs = fs"
proof -
  have n: "JStr (id' f) \<noteq> get result ''fileId''" if "f \<in> set fs" for f
    using assms that by (metis (no_types, lifting) image_eqI set_map)
  show ?thesis
    unfolding merge_ingestion_def by (rule map_idI) (simp add: n)
qed

lemma merge_processing_unknown:
  assumes "fileId \<notin> set (map (\<lambda>f. JStr (id' f)) fs)"
  shows "merge_processing guarded payload fileId a fs = fs"
proof -
  have n: "JStr (id' f) \<noteq> fileId" if "f \<in> set fs" for f
    using assms that by (metis (no_types, lifting) image_eqI set_map)
  show ?thesis
    unfolding merge_processing_def by (rule map_idI) (simp add: n)
qed

text \<open>
  C3, as the code has it. Every merge keeps the ids of the collection, and merging the
  same event twice gives the same files as merging it once, in the ingestion loop and
  in both processing loops. Only the earlier startProcessing (part 002) keeps a
  finished entity: when every file with the event's id is already processed, its merge
  changes nothing (and it leaves no file with the event's id unprocessed). The merge of
  handleIngestion gives every file with the event's id
  the status, the details and the error of the event (undefined when the event has
  none), whatever its status was; the merge of processFiles gives every file with the
  event's id, processed or not, the analysis and the error of the event. No merge
  reports a result.
\<close>

theorem C3_merge_idempotent_guard_in_part002_only:
  "map id' (merge_ingestion result fs) = map id' fs
   \<and> map id' (merge_processing guarded payload fileId a fs) = map id' fs
   \<and> merge_ingestion result (merge_ingestion result fs) = merge_ingestion result fs
   \<and> merge_processing guarded payload fileId a
        (merge_processing guarded payload fileId a fs)
      = merge_processing guarded payload fileId a fs
   \<and> ((\<forall>f \<in> set fs. JStr (id' f) = fileId \<longrightarrow> processed f)
        \<longrightarrow> merge_processing True payload fileId a fs = fs)
   \<and> (\<forall>f \<in> set (merge_ingestion result fs).
         JStr (id' f) = get result ''fileId''
           \<longrightarrow> ingestionStatus f = get result ''status''
             \<and> ingestionDetails f = get result ''ingestionDetails''
             \<and> error f = (if truthy (get result ''error'') then get result ''error''
                          else Undefined))
   \<and> (\<forall>f \<in> set (merge_processing False payload fileId a fs).
         JStr (id' f) = fileId
           \<longrightarrow> processed f
             \<and> analysis f = coalesce (coalesce a (get payload ''analysis'')) payload
             \<and> error f = coalesce (get payload ''error'') Undefined)
   \<and> (\<forall>f \<in> set (merge_processing True payload fileId a fs).
         JStr (id' f) = fileId \<longrightarrow> processed f)"
proof -
  have g: "(\<forall>f \<in> set fs. JStr (id' f) = fileId \<longrightarrow> processed f)
        \<longrightarrow> merge_processing True payload fileId a fs = fs"
    using merge_processing_guard by blast
  have i: "\<forall>f \<in> set (merge_ingestion result fs).
         JStr (id' f) = get result ''fileId''
           \<longrightarrow> ingestionStatus f = get result ''status''
             \<and> ingestionDetails f = get result ''ingestionDetails''
             \<and> error f = (if truthy (get result ''error'') then get result ''error''
                          else Undefined)"
    using merge_ingestion_overwrites by blast
  have p: "\<forall>f \<in> set (merge_processing False payload fileId a fs).
         JStr (id' f) = fileId
           \<longrightarrow> processed f
             \<and> analysis f = coalesce (coalesce a (get payload ''analysis'')) payload
             \<and> error f = coalesce (get payload ''error'') Undefined"
    using merge_processing_overwrites by blast
  have q: "\<forall>f \<in> set (merge_processing True payload fileId a fs).
         JStr (id' f) = fileId \<longrightarrow> processed f"
    by (auto simp: merge_processing_def processed_file_processed)
  from g i p q show ?thesis
    by (simp only: merge_ingestion_ids merge_processing_ids merge_ingestion_idem
          merge_processing_idem simp_thms)
qed

text \<open>
  The theorem at the processed file A and the failed event of A: the guarded merge
  leaves A alone, the merge of processFiles gives A the error of the event, and the
  ingestion merge is idempotent and sets status and error to those of the event.
\<close>

theorem C3_merge_idempotent_guard_in_part002_only_witness:
  "processed done_A
   \<and> merge_processing True event_A_failed (JStr ''A'') JNull [done_A] = [done_A]
   \<and> map error (merge_processing False event_A_failed (JStr ''A'') JNull [done_A])
      = [JStr ''timeout'']
   \<and> merge_ingestion event_A_failed (merge_ingestion event_A_failed [done_A])
      = merge_ingestion event_A_failed [done_A]
   \<and> map ingestionStatus (merge_ingestion event_A_failed [done_A]) = [JStr ''failed'']
   \<and> map error (merge_ingestion event_A_failed [done_A]) = [JStr ''timeout'']"
proof -
  have p: "processed done_A" by code_simp
  then have h: "\<forall>f \<in> set [done_A]. JStr (id' f) = JStr ''A'' \<longrightarrow> processed f" by simp
  have s: "map ingestionStatus (merge_ingestion event_A_failed [done_A]) = [JStr ''failed'']"
    by code_simp
  have e: "map error (merge_ingestion event_A_failed [done_A]) = [JStr ''timeout'']"
    by code_simp
  have u: "map error (merge_processing False event_A_failed (JStr ''A'') JNull [done_A])
      = [JStr ''timeout'']"
    by code_simp
  from C3_merge_idempotent_guard_in_part002_only
         [of event_A_failed "[done_A]" True event_A_failed "JStr ''A''" JNull]
  show ?thesis using p h s e u by blast
qed

text \<open>
  C3 as stated fails in handleIngestion: after the success event of A the status of A
  is success, and a later failed event of A in the same pass turns it into failed, with
  the error of the event.
\<close>

theorem C3_ingestion_overwrites_terminal_counterexample:
  "map ingestionStatus
     (files (startIngestion JSON_parse_table (Body [frame_A_success] None)
               (initial_state [done_A])))
     = [JStr ''success'']
   \<and> map ingestionStatus
     (files (startIngestion JSON_parse_table (Body [frame_A_success, frame_A_failed] None)
               (initial_state [done_A])))
     = [JStr ''failed'']
   \<and> map error
     (files (startIngestion JSON_parse_table (Body [frame_A_success, frame_A_failed] None)
               (initial_state [done_A])))
     = [JStr ''timeout'']"
  by code_simp

text \<open>
  C7, as the code has it. No merge creates or removes an entity (the ids of the
  collection stay as they are, in order) and none changes the number of tracked files
  (the selected processed files of the ingestion view, the selected files of the
  processing view). An event whose id is the id of no file of the whole collection
  leaves every file unchanged. The pass plays no part: every file of the collection
  with the event's id, tracked by the pass or not, takes the values of the event (in
  the earlier startProcessing, only if it is not processed yet).
\<close>

theorem C7_merge_creates_nothing_noop_outside_collection:
  "map id' (merge_ingestion result fs) = map id' fs
   \<and> length (selectedFiles_IP (merge_ingestion result fs)) = length (selectedFiles_IP fs)
   \<and> map id' (merge_processing guarded payload fileId a fs) = map id' fs
   \<and> length (filter selected (merge_processing guarded payload fileId a fs))
      = length (filter selected fs)
   \<and> (get result ''fileId'' \<notin> set (map (\<lambda>f. JStr (id' f)) fs)
        \<longrightarrow> merge_ingestion result fs = fs)
   \<and> (fileId \<notin> set (map (\<lambda>f. JStr (id' f)) fs)
        \<longrightarrow> merge_processing guarded payload fileId a fs = fs)
   \<and> (\<forall>f \<in> set (merge_ingestion result fs).
         JStr (id' f) = get result ''fileId''
           \<longrightarrow> ingestionStatus f = get result ''status''
             \<and> ingestionDetails f = get result ''ingestionDetails'')
   \<and> (\<forall>f \<in> set (merge_processing False payload fileId a fs).
         JStr (id' f) = fileId \<longrightarrow> processed f)
   \<and> (\<forall>f \<in> set (merge_processing True payload fileId a fs).
         JStr (id' f) = fileId \<longrightarrow> processed f)"
proof -
  have u1: "get result ''fileId'' \<notin> set (map (\<lambda>f. JStr (id' f)) fs)
        \<longrightarrow> merge_ingestion result fs = fs"
    using merge_ingestion_unknown by blast
  have u2: "fileId \<notin> set (map (\<lambda>f. JStr (id' f)) fs)
        \<longrightarrow> merge_processing guarded payload fileId a fs = fs"
    using merge_processing_unknown by blast
  have o1: "\<forall>f \<in> set (merge_ingestion result fs).
         JStr (id' f) = get result ''fileId''
           \<longrightarrow> ingestionStatus f = get result ''status''
             \<and> ingestionDetails f = get result ''ingestionDetails''"
    using merge_ingestion_overwrites by blast
  have o2: "\<forall>f \<in> set (merge_processing False payload fileId a fs).
         JStr (id' f) = fileId \<longrightarrow> processed f"
    using merge_processing_overwrites by blast
  have o3: "\<forall>f \<in> set (merge_processing True payload fileId a fs).
         JStr (id' f) = fileId \<longrightarrow> processed f"
    by (auto simp: merge_processing_def processed_file_processed)
  from u1 u2 o1 o2 o3 show ?thesis
    by (simp only: merge_ingestion_ids merge_ingestion_total merge_processing_ids
          merge_processing_count_selected simp_thms)
qed

text \<open>
  The theorem at an event for the id Z, which no file has, and at the event of B with B
  in the collection but deselected: the first changes nothing, the second keeps the ids
  and the one tracked file and gives B the status of the event.
\<close>

theorem C7_merge_creates_nothing_noop_outside_collection_witness:
  "get event_Z ''fileId'' \<notin> set (map (\<lambda>f. JStr (id' f)) [done_A, deselected_done_B])
   \<and> JStr ''Z'' \<notin> set (map (\<lambda>f. JStr (id' f)) [done_A, deselected_done_B])
   \<and> merge_ingestion event_Z [done_A, deselected_done_B] = [done_A, deselected_done_B]
   \<and> merge_processing False event_Z (JStr ''Z'') JNull [done_A, deselected_done_B]
      = [done_A, deselected_done_B]
   \<and> map id' (merge_ingestion event_B_success [done_A, deselected_done_B]) = [''A'', ''B'']
   \<and> length (selectedFiles_IP (merge_ingestion event_B_success [done_A, deselected_done_B]))
      = 1
   \<and> map ingestionStatus (merge_ingestion event_B_success [done_A, deselected_done_B])
      = [Undefined, JStr ''success'']"
proof -
  have h1: "get event_Z ''fileId'' \<notin> set (map (\<lambda>f. JStr (id' f)) [done_A, deselected_done_B])"
    by code_simp
  have h2: "JStr ''Z'' \<notin> set (map (\<lambda>f. JStr (id' f)) [done_A, deselected_done_B])"
    by code_simp
  have i: "map id' [done_A, deselected_done_B] = [''A'', ''B'']" by code_simp
  have n: "length (selectedFiles_IP [done_A, deselected_done_B]) = 1" by code_simp
  have s: "map ingestionStatus (merge_ingestion event_B_success [done_A, deselected_done_B])
      = [Undefined, JStr ''success'']"
    by code_simp
  from C7_merge_creates_nothing_noop_outside_collection
         [of event_Z "[done_A, deselected_done_B]" False event_Z "JStr ''Z''" JNull]
       C7_merge_creates_nothing_noop_outside_collection
         [of event_B_success "[done_A, deselected_done_B]" False event_Z "JStr ''Z''" JNull]
  show ?thesis using h1 h2 i n s by simp
qed

text \<open>
  C7 as stated fails for an id of the collection that the pass does not track. The
  ingestion pass started for the selected processed files tracks A alone; the event of
  the deselected B gives B the status success. In the same way the processing pass
  tracks the selected A alone, and the event of the deselected B marks B as processed.
\<close>

theorem C7_event_for_untracked_file_counterexample:
  "map id' (selectedFiles_IP [done_A, deselected_done_B]) = [''A'']
   \<and> map ingestionStatus [done_A, deselected_done_B] = [Undefined, Undefined]
   \<and> map ingestionStatus
        (files (startIngestion JSON_parse_table (Body [frame_B_success] None)
                  (initial_state [done_A, deselected_done_B])))
      = [JStr ''pending'', JStr ''success'']
   \<and> map selected [file_A, deselected_B] = [True, False]
   \<and> map processed [file_A, deselected_B] = [False, False]
   \<and> map processed
        (files (startProcessing JSON_parse_table (Body [frame_B_head @ frame_B_tail] None)
                  (initial_state [file_A, deselected_B])))
      = [False, True]"
  by code_simp

section \<open>Failure of the connection\<close>

lemma read_loop_rejects:
  "\<exists>e' st2. read_loop parse chunks (Some e) b st = Inl (e', st2)"
proof (induction chunks arbitrary: b st)
  case Nil
  show ?case by simp
next
  case (Cons c cs)
  show ?case
  proof (cases "process_buffer parse (b @ c) st")
    case (Inl x)
    then show ?thesis by (cases x) simp
  next
    case (Inr r)
    obtain b' st' where "r = (b', st')" by (cases r)
    with Inr Cons.IH [of b' st'] show ?thesis by simp
  qed
qed

text \<open>
  The match loop of processFiles lets no exception out, so a rejecting reader ends the
  read loop with the very value it rejected with.
\<close>

lemma read_matches_rejects:
  "\<exists>st2. read_matches guarded parse selectedFiles chunks (Some e) b st = Inl (e, st2)"
proof (induction chunks arbitrary: b st)
  case Nil
  show ?case by simp
next
  case (Cons c cs)
  obtain b' st' where
    "match_loop guarded parse selectedFiles True (b @ c) st = (b', st')"
    by (cases "match_loop guarded parse selectedFiles True (b @ c) st")
  with Cons.IH [of b' st'] show ?case by simp
qed

lemma mark_pending_failed_none_pending:
  "JStr ''pending'' \<notin> set (map ingestionStatus (mark_pending_failed fs))"
  by (induction fs) (auto simp: mark_pending_failed_def)

text \<open>
  C4, as the code has it. When a pass of handleIngestion is started for some files and
  the request fails or the reader rejects, the pass ends in its \<^verbatim>\<open>catch\<close>: with the
  state \<open>st2\<close> reached when the exception was thrown, every file of the collection whose
  status is pending (tracked by this pass or not) becomes failed with the message
  "Connection error during ingestion.", every other file is unchanged, the message of
  the exception is stored once as the error of the pass, and no file is left pending.
  When a pass of processFiles fails in the same way, its \<^verbatim>\<open>catch\<close> marks no file: the
  files are those of the state \<open>st2\<close> the stream had reached, and only the error cell of
  the component is set, once, to the message of the exception or to the default text
  (to nothing when the value thrown is null or undefined).
\<close>

theorem C4_connection_failure_marks_every_pending_file:
  assumes "filesToProcess \<noteq> []"
    and "resp = Failed e \<or> resp = Body chunks (Some e)"
  shows "(\<exists>e' st2.
     try_ingestion parse resp (begin_ingestion filesToProcess st) = Inl (e', st2)
     \<and> handleIngestion parse filesToProcess resp st
        = st2\<lparr>apiError := Some (errorMessage e'),
             files := map (\<lambda>f. if ingestionStatus f = JStr ''pending''
                                then f\<lparr>ingestionStatus := JStr ''failed'',
                                       error := JStr ''Connection error during ingestion.''\<rparr>
                                else f) (files st2),
             isIngesting := False\<rparr>
     \<and> JStr ''pending''
          \<notin> set (map ingestionStatus (files (handleIngestion parse filesToProcess resp st))))
   \<and> (\<exists>st2.
     try_processing parse selectedFiles resp (begin_processing st') = Inl (e, st2)
     \<and> processFiles parse selectedFiles filesToProcess resp st'
        = (case messageOrDefault e of
             None \<Rightarrow> st2\<lparr>isProcessing := False\<rparr>
           | Some v \<Rightarrow> st2\<lparr>error_FP := v, isProcessing := False\<rparr>)
     \<and> files (processFiles parse selectedFiles filesToProcess resp st') = files st2)"
proof -
  obtain e' st2 where t:
    "try_ingestion parse resp (begin_ingestion filesToProcess st) = Inl (e', st2)"
    using assms(2) read_loop_rejects [of parse chunks e "[]" "begin_ingestion filesToProcess st"]
    by (auto simp: try_ingestion_def)
  have h: "handleIngestion parse filesToProcess resp st
        = st2\<lparr>apiError := Some (errorMessage e'),
             files := mark_pending_failed (files st2), isIngesting := False\<rparr>"
    using assms(1) t by (simp add: handleIngestion_def catch_ingestion_def)
  have n: "JStr ''pending''
          \<notin> set (map ingestionStatus (files (handleIngestion parse filesToProcess resp st)))"
    unfolding h using mark_pending_failed_none_pending [of "files st2"] by simp
  have ingestion: "\<exists>e' st2.
     try_ingestion parse resp (begin_ingestion filesToProcess st) = Inl (e', st2)
     \<and> handleIngestion parse filesToProcess resp st
        = st2\<lparr>apiError := Some (errorMessage e'),
             files := map (\<lambda>f. if ingestionStatus f = JStr ''pending''
                                then f\<lparr>ingestionStatus := JStr ''failed'',
                                       error := JStr ''Connection error during ingestion.''\<rparr>
                                else f) (files st2),
             isIngesting := False\<rparr>
     \<and> JStr ''pending''
          \<notin> set (map ingestionStatus (files (handleIngestion parse filesToProcess resp st)))"
    using t h n unfolding mark_pending_failed_def by blast
  obtain s2 where tp:
    "try_processing parse selectedFiles resp (begin_processing st') = Inl (e, s2)"
    using assms(2)
      read_matches_rejects [of False parse selectedFiles chunks e "[]" "begin_processing st'"]
    by (auto simp: try_processing_def)
  have hp: "processFiles parse selectedFiles filesToProcess resp st'
        = (case messageOrDefault e of
             None \<Rightarrow> s2\<lparr>isProcessing := False\<rparr>
           | Some v \<Rightarrow> s2\<lparr>error_FP := v, isProcessing := False\<rparr>)"
    using assms(1) tp
    by (simp add: processFiles_def catch_processing_def split: option.split)
  have fp: "files (processFiles parse selectedFiles filesToProcess resp st') = files s2"
    unfolding hp by (simp split: option.split)
  from ingestion tp hp fp show ?thesis by blast
qed

text \<open>
  The theorem at a pass for A whose first read is rejected. In handleIngestion the
  error of the pass is the message of the rejection and no file is pending afterwards;
  in processFiles the file is as it was and the error cell holds the message.
\<close>

theorem C4_connection_failure_marks_every_pending_file_witness:
  "[done_A] \<noteq> []
   \<and> apiError (handleIngestion JSON_parse_table [done_A] (Body [] (Some network_error))
                 (initial_state [done_A, done_B])) = Some ''network error''
   \<and> JStr ''pending''
        \<notin> set (map ingestionStatus
                 (files (handleIngestion JSON_parse_table [done_A]
                           (Body [] (Some network_error)) (initial_state [done_A, done_B]))))
   \<and> files (processFiles JSON_parse_table [done_A] [done_A] (Body [] (Some network_error))
              (initial_state [done_A, done_B]))
      = [done_A, done_B]
   \<and> error_FP (processFiles JSON_parse_table [done_A] [done_A] (Body [] (Some network_error))
              (initial_state [done_A, done_B]))
      = JStr ''network error''"
proof -
  have ne: "[done_A] \<noteq> []" by simp
  have r: "Body [] (Some network_error) = Failed network_error
           \<or> Body [] (Some network_error) = Body [] (Some network_error)" by simp
  have a: "apiError (handleIngestion JSON_parse_table [done_A] (Body [] (Some network_error))
                 (initial_state [done_A, done_B])) = Some ''network error''"
    by code_simp
  have f: "files (processFiles JSON_parse_table [done_A] [done_A] (Body [] (Some network_error))
              (initial_state [done_A, done_B]))
      = [done_A, done_B]"
    by code_simp
  have m: "error_FP (processFiles JSON_parse_table [done_A] [done_A]
              (Body [] (Some network_error)) (initial_state [done_A, done_B]))
      = JStr ''network error''"
    by code_simp
  from C4_connection_failure_marks_every_pending_file
         [OF ne r, of JSON_parse_table "initial_state [done_A, done_B]" "[done_A]"
            "initial_state [done_A, done_B]"]
  show ?thesis using a f m by blast
qed

text \<open>
  C4 as stated fails in both handlers. In handleIngestion a file that is pending
  without being tracked by the pass is marked too: the first pass ends normally after
  the failed event of A, with B still pending; the retry pass tracks the failed files,
  that is A alone; its first read is rejected, and B is marked as failed with the
  connection error as well. In processFiles no file is marked: the pass for A and B
  reads the event of A, then the reader rejects; B, tracked and not yet processed,
  stays unprocessed and without error, and only the error cell is set.
\<close>

theorem C4_untracked_pending_file_counterexample:
  "map ingestionStatus
     (files (startIngestion JSON_parse_table (Body [frame_A_failed] None)
               (initial_state [done_A, done_B])))
     = [JStr ''failed'', JStr ''pending'']
   \<and> map id'
     (failedFiles_IP
        (files (startIngestion JSON_parse_table (Body [frame_A_failed] None)
                  (initial_state [done_A, done_B]))))
     = [''A'']
   \<and> map ingestionStatus
     (files (retryFailedIngestion JSON_parse_table (Body [] (Some network_error))
               (startIngestion JSON_parse_table (Body [frame_A_failed] None)
                  (initial_state [done_A, done_B]))))
     = [JStr ''failed'', JStr ''failed'']
   \<and> map error
     (files (retryFailedIngestion JSON_parse_table (Body [] (Some network_error))
               (startIngestion JSON_parse_table (Body [frame_A_failed] None)
                  (initial_state [done_A, done_B]))))
     = [JStr ''Connection error during ingestion.'',
        JStr ''Connection error during ingestion.'']
   \<and> map processed
     (files (startProcessing JSON_parse_table (Body [frame_A] (Some network_error))
               (initial_state [file_A, file_B])))
     = [True, False]
   \<and> map error
     (files (startProcessing JSON_parse_table (Body [frame_A] (Some network_error))
               (initial_state [file_A, file_B])))
     = [Undefined, Undefined]
   \<and> error_FP
     (startProcessing JSON_parse_table (Body [frame_A] (Some network_error))
        (initial_state [file_A, file_B]))
     = JStr ''network error''"
  by code_simp

section \<open>The published progress\<close>

text \<open>
  C5, as the code has it. After a data message that parses to a value other than null,
  handleIngestion publishes the \<^verbatim>\<open>progress\<close> property of the payload as it came (the
  files play no part). After a match whose payload has a usable id, the processing
  loops publish 100 times the number of selected processed files over the larger of 1
  and the number of selected files (the payload's \<^verbatim>\<open>progress\<close> plays no part).
\<close>

theorem C5_published_progress_by_stream:
  assumes "startsWith message ''data: ''"
    and "parse (drop 6 message) = Inr result"
    and "\<not> nullish result"
    and "parse rawData = Inr payload"
    and "\<not> nullish payload"
    and "truthy (chosen_id payload)"
  shows "handle_message parse message st
           = Inr (st\<lparr>files := merge_ingestion result (files st),
                      ingestionProgress := get result ''progress''\<rparr>)
       \<and> processingProgress (handle_match guarded parse selectedFiles rawData st')
           = of_nat (length (filter (\<lambda>f. selected f \<and> processed f)
                              (files (handle_match guarded parse selectedFiles rawData st'))))
               / of_nat (max 1 (length selectedFiles)) * 100"
  using assms by (simp add: handle_message_def handle_match_def Let_def)

text \<open>
  The theorem at the success event of A, whose \<^verbatim>\<open>progress\<close> is 50, and at the
  processing payload of A with A the only selected file.
\<close>

theorem C5_published_progress_by_stream_witness:
  \<open>startsWith message_A_success ''data: ''
   \<and> JSON_parse_table (drop 6 message_A_success) = Inr event_A_success
   \<and> \<not> nullish event_A_success
   \<and> JSON_parse_table ''{"file_id":"A","status":"success"}'' = Inr payload_A
   \<and> \<not> nullish payload_A
   \<and> truthy (chosen_id payload_A)
   \<and> handle_message JSON_parse_table message_A_success (initial_state [done_A])
       = Inr ((initial_state [done_A])
                \<lparr>files := merge_ingestion event_A_success [done_A],
                 ingestionProgress := JNum 50\<rparr>)
   \<and> processingProgress
        (handle_match False JSON_parse_table [file_A] ''{"file_id":"A","status":"success"}''
           (initial_state [file_A]))
       = 100\<close>
proof -
  have h1: "startsWith message_A_success ''data: ''" by code_simp
  have h2: "JSON_parse_table (drop 6 message_A_success) = Inr event_A_success" by code_simp
  have h3: "\<not> nullish event_A_success" by code_simp
  have h4: \<open>JSON_parse_table ''{"file_id":"A","status":"success"}'' = Inr payload_A\<close>
    by code_simp
  have h5: "\<not> nullish payload_A" by code_simp
  have h6: "truthy (chosen_id payload_A)" by code_simp
  have g: "get event_A_success ''progress'' = JNum 50" by code_simp
  have f: "files (initial_state [done_A]) = [done_A]" by (simp add: initial_state_def)
  have v: \<open>of_nat (length (filter (\<lambda>f. selected f \<and> processed f)
             (files (handle_match False JSON_parse_table [file_A]
                       ''{"file_id":"A","status":"success"}'' (initial_state [file_A])))))
               / of_nat (max 1 (length [file_A])) * 100 = (100::rat)\<close>
    by code_simp
  from C5_published_progress_by_stream
         [where parse = JSON_parse_table and guarded = False and selectedFiles = "[file_A]"
            and st = "initial_state [done_A]" and st' = "initial_state [file_A]",
          OF h1 h2 h3 h4 h5 h6]
  show ?thesis using h1 h2 h3 h4 h5 h6 g f v by simp
qed

text \<open>
  C5 as stated fails in handleIngestion: after the success event of A, the only
  selected file, the published progress is the 50 of the payload, while one file of one
  has succeeded.
\<close>

theorem C5_payload_progress_published_counterexample:
  "ingestionProgress
     (startIngestion JSON_parse_table (Body [frame_A_success] None) (initial_state [done_A]))
     = JNum 50
   \<and> successCount
     (files (startIngestion JSON_parse_table (Body [frame_A_success] None)
               (initial_state [done_A])))
     = 1
   \<and> length (selectedFiles_IP
     (files (startIngestion JSON_parse_table (Body [frame_A_success] None)
               (initial_state [done_A]))))
     = 1"
  by code_simp

subsection \<open>The percentage of the processing loops\<close>

lemma selected_processed_le:
  "length (filter (\<lambda>f. selected f \<and> processed f) fs) \<le> length (filter selected fs)"
  by (induction fs) auto

text \<open>
  While the render's list of selected files is at least as long as the selection in
  the state, the percentage a match publishes lies between 0 and 100.
\<close>

lemma handle_match_percent_in_range:
  assumes "parse rawData = Inr payload"
    and "\<not> nullish payload"
    and "truthy (chosen_id payload)"
    and "length (filter selected (files st)) \<le> length selectedFiles"
  shows "0 \<le> processingProgress (handle_match guarded parse selectedFiles rawData st)
       \<and> processingProgress (handle_match guarded parse selectedFiles rawData st) \<le> 100"
proof -
  define updated where
    "updated = merge_processing guarded payload (chosen_id payload)
                 (unwrap_analysis payload) (files st)"
  define k where "k = length (filter (\<lambda>f. selected f \<and> processed f) updated)"
  define n where "n = max 1 (length selectedFiles)"
  have p: "processingProgress (handle_match guarded parse selectedFiles rawData st)
             = of_nat k / of_nat n * 100"
    using assms(1-3) by (simp add: handle_match_def Let_def updated_def k_def n_def)
  have "k \<le> length (filter selected updated)"
    unfolding k_def by (rule selected_processed_le)
  also have "\<dots> = length (filter selected (files st))"
    unfolding updated_def by (rule merge_processing_count_selected)
  also have "\<dots> \<le> n" using assms(4) by (simp add: n_def)
  finally have kn: "k \<le> n" .
  have n0: "0 < n" by (simp add: n_def)
  have "(of_nat k :: rat) \<le> of_nat n" using kn by simp
  then have d: "(of_nat k :: rat) / of_nat n \<le> 1" using n0 by (simp add: divide_le_eq)
  have "(of_nat k :: rat) / of_nat n * 100 \<le> 100"
    using mult_right_mono [OF d, of 100] by simp
  moreover have "(0::rat) \<le> of_nat k / of_nat n * 100" by simp
  ultimately show ?thesis unfolding p by blast
qed

text \<open>
  C8. The percentage published at the end of a stream in which every tracked entity
  finished must be 100. The earlier startProcessing (part 002) computes its final
  progress from \<^verbatim>\<open>processedCount\<close>, which is declared as 0 and never assigned: with one
  selected file whose event arrives, the file is processed, and the final progress is 0.
  processFiles, which has no such final step, ends the same stream at 100.
\<close>

theorem C8_part002_final_progress_is_zero:
  "map processed
     (files (startProcessing_part002 JSON_parse_table (Body [frame_A] None)
               (initial_state [file_A])))
     = [True]
   \<and> processingProgress
     (startProcessing_part002 JSON_parse_table (Body [frame_A] None)
        (initial_state [file_A]))
     = 0
   \<and> processingProgress
     (startProcessing JSON_parse_table (Body [frame_A] None) (initial_state [file_A]))
     = 100"
  by code_simp

section \<open>The counts of the ingestion view\<close>

lemma status_partition:
  "length (filter (\<lambda>f. ingestionStatus f = JStr ''pending'') xs)
     + length (filter (\<lambda>f. ingestionStatus f = JStr ''success'') xs)
     + length (filter (\<lambda>f. ingestionStatus f = JStr ''failed'') xs)
     + length (filter (\<lambda>f. ingestionStatus f
                        \<notin> {JStr ''pending'', JStr ''success'', JStr ''failed''}) xs)
   = length xs"
  by (induction xs) auto

text \<open>
  C6, as the code has it. The three counts and the number of selected files whose
  status is none of pending, success and failed (never assigned, or any other value the
  stream wrote) add up to the number of selected files.
\<close>

theorem C6_counts_with_unclassified:
  "pendingCount fs + successCount fs + failedCount fs
     + length (filter (\<lambda>f. ingestionStatus f
                        \<notin> {JStr ''pending'', JStr ''success'', JStr ''failed''})
                (selectedFiles_IP fs))
   = length (selectedFiles_IP fs)"
  unfolding pendingCount_def successCount_def failedCount_def
  by (rule status_partition)

text \<open>
  C6 as stated fails before the first pass: a processed, selected file has no
  \<^verbatim>\<open>ingestionStatus\<close> yet and is in none of the three counts.
\<close>

theorem C6_unassigned_status_counterexample:
  "pendingCount [done_A] + successCount [done_A] + failedCount [done_A]
     \<noteq> length (selectedFiles_IP [done_A])"
  by code_simp

section \<open>Frames that are not data\<close>

text \<open>
  C9. In the ingestion loop a complete frame that does not start with \<^verbatim>\<open>data: \<close>
  changes nothing (no file, no progress, no exception), and the loop goes on with the
  buffer that follows the frame.
\<close>

theorem C9_non_data_frame_ignored:
  assumes "indexOf nn buffer = Some boundary"
    and "\<not> startsWith (take boundary buffer) ''data: ''"
  shows "handle_message parse (take boundary buffer) st = Inr st
       \<and> process_buffer parse buffer st
           = process_buffer parse (drop (boundary + 2) buffer) st"
proof -
  have h: "handle_message parse (take boundary buffer) st = Inr st"
    using assms(2) by (simp add: handle_message_def)
  show ?thesis
    using h assms(1) by (subst process_buffer.simps) simp
qed

text \<open>
  The theorem at a comment frame followed by an event of A: the comment is skipped and
  the event is applied.
\<close>

theorem C9_non_data_frame_ignored_witness:
  "indexOf nn (frame_comment @ frame_A_success) = Some 12
   \<and> \<not> startsWith (take 12 (frame_comment @ frame_A_success)) ''data: ''
   \<and> process_buffer JSON_parse_table (frame_comment @ frame_A_success)
        (initial_state [done_A])
      = process_buffer JSON_parse_table frame_A_success (initial_state [done_A])
   \<and> process_buffer JSON_parse_table frame_A_success (initial_state [done_A])
      = Inr ([], (initial_state [done_A])
                   \<lparr>files := [done_A\<lparr>ingestionStatus := JStr ''success''\<rparr>],
                    ingestionProgress := JNum 50\<rparr>)"
proof -
  have i: "indexOf nn (frame_comment @ frame_A_success) = Some 12"
    by code_simp
  have s: "\<not> startsWith (take 12 (frame_comment @ frame_A_success)) ''data: ''"
    by code_simp
  have d: "drop (12 + 2) (frame_comment @ frame_A_success) = frame_A_success"
    by code_simp
  have v: "process_buffer JSON_parse_table frame_A_success (initial_state [done_A])
      = Inr ([], (initial_state [done_A])
                   \<lparr>files := [done_A\<lparr>ingestionStatus := JStr ''success''\<rparr>],
                    ingestionProgress := JNum 50\<rparr>)"
    by code_simp
  show ?thesis
    using i s d v
      C9_non_data_frame_ignored [OF i s, of JSON_parse_table "initial_state [done_A]"]
    by simp
qed

end
